theory Spec2Isabelle
  imports Complex_Main
begin

section \<open>The product store of \<^verbatim>\<open>src/server.ts\<close>\<close>

text \<open>
  The server keeps two module-level variables, the array \<^verbatim>\<open>products\<close> and the counter
  \<^verbatim>\<open>nextId\<close>, and four resolvers over them. The two variables are the fields of the
  record \<open>state\<close>; a resolver takes the state and returns its result together with the
  state it leaves behind.

  Numbers. The GraphQL schema types \<^verbatim>\<open>page\<close>, \<^verbatim>\<open>perPage\<close> and \<^verbatim>\<open>stock\<close> as \<^verbatim>\<open>Int!\<close>
  (an integer) and \<^verbatim>\<open>price\<close> as \<^verbatim>\<open>Float!\<close> (a finite number). The server stores and copies
  \<^verbatim>\<open>price\<close> and \<^verbatim>\<open>stock\<close> and computes only with \<^verbatim>\<open>page\<close>, \<^verbatim>\<open>perPage\<close> and \<^verbatim>\<open>nextId\<close>, all
  integers. They are modelled as mathematical numbers: \<open>int\<close> for the schema's integers,
  \<open>real\<close> for the price, \<open>nat\<close> for the counter, which starts at 1 and only grows. A
  JavaScript number holds every integer of magnitude up to \<open>2 ^ 53\<close> exactly, so the
  model is the program as long as the counter and the length of the array stay below
  that bound.
\<close>

subsection \<open>Data\<close>

record product =
  id_of :: string
  name :: string
  price :: real
  stock :: int

record state =
  products :: "product list"
  nextId :: nat

text \<open>\<^verbatim>\<open>const products = []; let nextId = 1;\<close>\<close>

definition init_state :: state where
  "init_state = \<lparr>products = [], nextId = 1\<rparr>"

subsection \<open>The JavaScript library functions the resolvers call\<close>

text \<open>
  \<^verbatim>\<open>String(n)\<close> of a natural number is its decimal numeral, most significant digit
  first, with no leading zero.
\<close>

definition digit :: "nat \<Rightarrow> char" where
  "digit d = ''0123456789'' ! d"

fun String_js :: "nat \<Rightarrow> string" where
  "String_js n = (if n < 10 then [digit n] else String_js (n div 10) @ [digit (n mod 10)])"

declare String_js.simps [simp del]

text \<open>
  \<^verbatim>\<open>Array.prototype.slice(start, end)\<close>: a negative bound counts from the end of the
  array, both bounds are clamped to \<open>0 .. length\<close>, and the elements at the indices
  \<open>k, k + 1, ..., final - 1\<close> are copied to a new array. The array itself is not changed.
\<close>

definition relative_index :: "int \<Rightarrow> int \<Rightarrow> nat" where
  "relative_index len i = nat (if i < 0 then max (len + i) 0 else min i len)"

definition slice :: "'a list \<Rightarrow> int \<Rightarrow> int \<Rightarrow> 'a list" where
  "slice xs start end_ix =
     (let len = int (length xs);
          k = relative_index len start;
          final = relative_index len end_ix
      in map (\<lambda>i. xs ! i) [k ..< final])"

text \<open>
  \<^verbatim>\<open>Array.prototype.findIndex(pred)\<close>: the index of the first element that satisfies the
  predicate, \<open>-1\<close> when there is none.
\<close>

fun findIndex :: "('a \<Rightarrow> bool) \<Rightarrow> 'a list \<Rightarrow> int" where
  "findIndex pred [] = - 1"
| "findIndex pred (x # xs) =
     (if pred x then 0
      else (let i = findIndex pred xs in if i = - 1 then - 1 else i + 1))"

text \<open>
  \<^verbatim>\<open>Array.prototype.splice(start, deleteCount)\<close>: removes \<open>deleteCount\<close> elements (clamped
  to what the array holds) from the index \<open>start\<close> (relative as for \<open>slice\<close>) on. The
  result is the pair of the removed elements and the array that remains.
\<close>

definition splice_js :: "'a list \<Rightarrow> int \<Rightarrow> int \<Rightarrow> 'a list \<times> 'a list" where
  "splice_js xs start deleteCount =
     (let len = int (length xs);
          k = relative_index len start;
          d = nat (min (max deleteCount 0) (len - int k))
      in (take d (drop k xs), take k xs @ drop (k + d) xs))"

text \<open>
  Reading index 0 of an array, \<^verbatim>\<open>arr[0]\<close>: \<^verbatim>\<open>undefined\<close> on an empty array, which a
  resolver's caller treats as \<^verbatim>\<open>null\<close>.
\<close>

definition at0 :: "'a list \<Rightarrow> 'a option" where
  "at0 xs = (case xs of [] \<Rightarrow> None | x # _ \<Rightarrow> Some x)"

subsection \<open>The resolvers\<close>

text \<open>
  \<^verbatim>\<open>products: (_, { page, perPage }) =>
       products.slice((page - 1) * perPage, page * perPage)\<close>
\<close>

definition Query_products :: "state \<Rightarrow> int \<Rightarrow> int \<Rightarrow> product list \<times> state" where
  "Query_products s page perPage =
     (slice (products s) ((page - 1) * perPage) (page * perPage), s)"

text \<open>
  \<^verbatim>\<open>const newProduct = { id: String(nextId++), name, price, stock };
  products.push(newProduct);
  return newProduct;\<close>
\<close>

definition addProduct :: "state \<Rightarrow> string \<Rightarrow> real \<Rightarrow> int \<Rightarrow> product \<times> state" where
  "addProduct s nm pr st =
     (let newProduct = \<lparr>id_of = String_js (nextId s), name = nm, price = pr, stock = st\<rparr>
      in (newProduct,
          \<lparr>products = products s @ [newProduct], nextId = nextId s + 1\<rparr>))"

text \<open>
  \<^verbatim>\<open>const productIndex = products.findIndex((product) => product.id === id);
  if (productIndex === -1) return null;
  const updatedProduct = { id, name, price, stock };
  products[productIndex] = updatedProduct;
  return updatedProduct;\<close>

  The assignment is reached only with an index that \<open>findIndex\<close> found, which lies inside
  the array, so it is the list update at that index.
\<close>

definition updateProduct ::
  "state \<Rightarrow> string \<Rightarrow> string \<Rightarrow> real \<Rightarrow> int \<Rightarrow> product option \<times> state" where
  "updateProduct s ident nm pr st =
     (let productIndex = findIndex (\<lambda>product. id_of product = ident) (products s)
      in if productIndex = - 1 then (None, s)
         else (let updatedProduct = \<lparr>id_of = ident, name = nm, price = pr, stock = st\<rparr>
               in (Some updatedProduct,
                   s\<lparr>products := (products s)[nat productIndex := updatedProduct]\<rparr>)))"

text \<open>
  \<^verbatim>\<open>const productIndex = products.findIndex((product) => product.id === id);
  if (productIndex === -1) return null;
  return products.splice(productIndex, 1)[0];\<close>
\<close>

definition removeProduct :: "state \<Rightarrow> string \<Rightarrow> product option \<times> state" where
  "removeProduct s ident =
     (let productIndex = findIndex (\<lambda>product. id_of product = ident) (products s)
      in if productIndex = - 1 then (None, s)
         else (case splice_js (products s) productIndex 1 of
                 (removed, remaining) \<Rightarrow> (at0 removed, s\<lparr>products := remaining\<rparr>)))"

subsection \<open>Runs of the server\<close>

text \<open>
  A mutation request, and the state after a sequence of them. The reachable states are
  the states \<open>run init_state ms\<close>.
\<close>

datatype mutation =
  AddProduct string real int
| UpdateProduct string string real int
| RemoveProduct string

fun apply_mutation :: "state \<Rightarrow> mutation \<Rightarrow> state" where
  "apply_mutation s (AddProduct nm pr st) = snd (addProduct s nm pr st)"
| "apply_mutation s (UpdateProduct ident nm pr st) = snd (updateProduct s ident nm pr st)"
| "apply_mutation s (RemoveProduct ident) = snd (removeProduct s ident)"

fun run :: "state \<Rightarrow> mutation list \<Rightarrow> state" where
  "run s [] = s"
| "run s (m # ms) = run (apply_mutation s m) ms"

text \<open>The ids that the \<open>addProduct\<close> calls of a run assign, in the order of the calls.\<close>

fun assigned_ids :: "state \<Rightarrow> mutation list \<Rightarrow> string list" where
  "assigned_ids s [] = []"
| "assigned_ids s (AddProduct nm pr st # ms) =
     id_of (fst (addProduct s nm pr st)) # assigned_ids (snd (addProduct s nm pr st)) ms"
| "assigned_ids s (UpdateProduct ident nm pr st # ms) =
     assigned_ids (snd (updateProduct s ident nm pr st)) ms"
| "assigned_ids s (RemoveProduct ident # ms) = assigned_ids (snd (removeProduct s ident)) ms"

text \<open>A mutation whose price and stock arguments, if it has any, are not negative.\<close>

fun nonneg_args :: "mutation \<Rightarrow> bool" where
  "nonneg_args (AddProduct nm pr st) = (0 \<le> pr \<and> 0 \<le> st)"
| "nonneg_args (UpdateProduct ident nm pr st) = (0 \<le> pr \<and> 0 \<le> st)"
| "nonneg_args (RemoveProduct ident) = True"

subsection \<open>The invariant of the id counter\<close>

text \<open>
  The ids in the array are pairwise distinct, and each is the numeral of a counter value
  that has been used already: a positive number below \<open>nextId\<close>.
\<close>

definition ids_issued :: "state \<Rightarrow> bool" where
  "ids_issued s \<longleftrightarrow>
     distinct (map id_of (products s)) \<and> 0 < nextId s \<and>
     (\<forall>p\<in>set (products s). \<exists>k. 0 < k \<and> k < nextId s \<and> id_of p = String_js k)"

subsection \<open>An example run\<close>

text \<open>Three products are added to the empty store.\<close>

definition example_run :: "mutation list" where
  "example_run =
     [AddProduct ''Widget'' (999 / 100) 5, AddProduct ''Gadget'' 20 0, AddProduct ''Gizmo'' (5 / 2) 12]"

section \<open>Properties of the library functions\<close>

lemma digit_inj: "d < 10 \<Longrightarrow> e < 10 \<Longrightarrow> digit d = digit e \<Longrightarrow> d = e"
proof -
  assume d: "d < 10" and e: "e < 10" and eq: "digit d = digit e"
  have dist: "distinct ''0123456789''" by simp
  have "d < length ''0123456789''" "e < length ''0123456789''" using d e by simp_all
  with dist eq show "d = e" unfolding digit_def by (simp only: nth_eq_iff_index_eq)
qed

lemma String_js_not_Nil: "String_js n \<noteq> []"
  by (subst String_js.simps) simp

lemma String_js_inj: "String_js n = String_js m \<Longrightarrow> n = m"
proof (induction n arbitrary: m rule: String_js.induct)
  case (1 n)
  show ?case
  proof (cases "n < 10")
    case small_n: True
    show ?thesis
    proof (cases "m < 10")
      case True
      with small_n "1.prems" show ?thesis
        by (simp add: String_js.simps [of n] String_js.simps [of m] digit_inj)
    next
      case False
      with small_n "1.prems" String_js_not_Nil [of "m div 10"] show ?thesis
        by (auto simp add: String_js.simps [of n] String_js.simps [of m])
    qed
  next
    case big_n: False
    show ?thesis
    proof (cases "m < 10")
      case True
      with big_n "1.prems" String_js_not_Nil [of "n div 10"] show ?thesis
        by (auto simp add: String_js.simps [of n] String_js.simps [of m])
    next
      case False
      with big_n "1.prems" have q: "String_js (n div 10) = String_js (m div 10)"
        and r: "digit (n mod 10) = digit (m mod 10)"
        by (simp_all add: String_js.simps [of n] String_js.simps [of m])
      from "1.IH" [OF big_n q] have "n div 10 = m div 10" .
      moreover from r have "n mod 10 = m mod 10" by (simp add: digit_inj)
      ultimately show ?thesis by (metis div_mult_mod_eq)
    qed
  qed
qed

lemma findIndex_takeWhile:
  "findIndex P xs = (if \<exists>x\<in>set xs. P x then int (length (takeWhile (\<lambda>x. \<not> P x) xs)) else - 1)"
  by (induction xs) (auto simp: Let_def)

lemma takeWhile_stops: "\<exists>x\<in>set xs. P x \<Longrightarrow> length (takeWhile (\<lambda>x. \<not> P x) xs) < length xs"
  by (induction xs) auto

lemma first_match_takeWhile:
  assumes "\<exists>x\<in>set xs. P x"
  defines "i \<equiv> length (takeWhile (\<lambda>x. \<not> P x) xs)"
  shows "i < length xs" and "P (xs ! i)" and "\<forall>j<i. \<not> P (xs ! j)"
proof -
  show lt: "i < length xs"
    unfolding i_def using assms(1) by (rule takeWhile_stops)
  show "P (xs ! i)"
    using nth_length_takeWhile [of "\<lambda>x. \<not> P x" xs] lt unfolding i_def by simp
  show "\<forall>j<i. \<not> P (xs ! j)"
    unfolding i_def using nth_mem set_takeWhileD takeWhile_nth by metis
qed

lemma splice_one:
  "i < length xs \<Longrightarrow> splice_js xs (int i) 1 = ([xs ! i], take i xs @ drop (Suc i) xs)"
  by (simp add: splice_js_def relative_index_def Let_def take_Suc_conv_app_nth [of 0] Cons_nth_drop_Suc
        flip: drop_Suc)

lemma slice_take_drop:
  "slice xs a b =
     take (relative_index (int (length xs)) b - relative_index (int (length xs)) a)
       (drop (relative_index (int (length xs)) a) xs)"
proof -
  have k: "relative_index (int (length xs)) b \<le> length xs" for b
    by (auto simp: relative_index_def)
  show ?thesis
    unfolding slice_def Let_def
    by (rule nth_equalityI) (use k [of b] in \<open>auto simp: min_def\<close>)
qed

lemma set_slice: "set (slice xs a b) \<subseteq> set xs"
  unfolding slice_take_drop by (meson set_take_subset set_drop_subset subset_trans)

lemma String_js_digit: "n < 10 \<Longrightarrow> String_js n = [digit n]"
  by (subst String_js.simps) simp

lemma findIndex_absent:
  "ident \<notin> id_of ` set xs \<Longrightarrow> findIndex (\<lambda>product. id_of product = ident) xs = - 1"
  by (auto simp: findIndex_takeWhile)

lemma updateProduct_absent:
  "ident \<notin> id_of ` set (products s) \<Longrightarrow> updateProduct s ident nm pr st = (None, s)"
  by (simp add: updateProduct_def findIndex_absent)

lemma removeProduct_absent:
  "ident \<notin> id_of ` set (products s) \<Longrightarrow> removeProduct s ident = (None, s)"
  by (simp add: removeProduct_def findIndex_absent)

lemma updateProduct_present:
  assumes "ident \<in> id_of ` set (products s)"
  defines "i \<equiv> length (takeWhile (\<lambda>p. id_of p \<noteq> ident) (products s))"
  shows "updateProduct s ident nm pr st =
           (Some \<lparr>id_of = ident, name = nm, price = pr, stock = st\<rparr>,
            s\<lparr>products := (products s)[i := \<lparr>id_of = ident, name = nm, price = pr, stock = st\<rparr>]\<rparr>)"
  using assms(1) unfolding i_def
  by (auto simp: updateProduct_def findIndex_takeWhile Let_def)

lemma removeProduct_present:
  assumes "ident \<in> id_of ` set (products s)"
  defines "i \<equiv> length (takeWhile (\<lambda>p. id_of p \<noteq> ident) (products s))"
  shows "removeProduct s ident =
           (Some (products s ! i),
            s\<lparr>products := take i (products s) @ drop (Suc i) (products s)\<rparr>)"
proof -
  have ex: "\<exists>x\<in>set (products s). id_of x = ident" using assms(1) by auto
  have lt: "i < length (products s)"
    unfolding i_def using takeWhile_stops [OF ex] by simp
  have fi: "findIndex (\<lambda>product. id_of product = ident) (products s) = int i"
    using ex unfolding i_def by (simp add: findIndex_takeWhile)
  show ?thesis
    by (simp add: removeProduct_def fi splice_one [OF lt] at0_def)
qed

lemma first_id_match:
  assumes "ident \<in> id_of ` set xs"
  defines "i \<equiv> length (takeWhile (\<lambda>p. id_of p \<noteq> ident) xs)"
  shows "i < length xs \<and> id_of (xs ! i) = ident \<and> (\<forall>j<i. id_of (xs ! j) \<noteq> ident)"
proof -
  have ex: "\<exists>x\<in>set xs. id_of x = ident" using assms(1) by auto
  from first_match_takeWhile [OF ex] show ?thesis unfolding i_def by simp
qed

section \<open>Properties of the resolvers\<close>

lemma ids_issued_init: "ids_issued init_state"
  by (simp add: ids_issued_def init_state_def)

lemma ids_issued_fresh:
  assumes "ids_issued s"
  shows "String_js (nextId s) \<notin> id_of ` set (products s)"
proof
  assume "String_js (nextId s) \<in> id_of ` set (products s)"
  then obtain p where "p \<in> set (products s)" "id_of p = String_js (nextId s)"
    by auto
  with assms obtain k where "k < nextId s" "String_js (nextId s) = String_js k"
    unfolding ids_issued_def by metis
  then show False using String_js_inj by blast
qed

lemma ids_issued_add:
  assumes "ids_issued s"
  shows "ids_issued (snd (addProduct s nm pr st))"
proof -
  have old: "\<forall>p\<in>set (products s). \<exists>k. 0 < k \<and> k < Suc (nextId s) \<and> id_of p = String_js k"
    using assms unfolding ids_issued_def by (meson less_Suc_eq)
  have new: "\<exists>k. 0 < k \<and> k < Suc (nextId s) \<and> String_js (nextId s) = String_js k"
    using assms unfolding ids_issued_def by blast
  show ?thesis
    using assms ids_issued_fresh [OF assms] old new
    unfolding ids_issued_def addProduct_def Let_def by simp
qed

lemma set_remove_at: "set (take i xs @ drop (Suc i) xs) \<subseteq> set xs"
  by (auto dest: in_set_takeD in_set_dropD)

lemma distinct_remove_nth: "distinct ys \<Longrightarrow> distinct (take i ys @ drop (Suc i) ys)"
proof (induction ys arbitrary: i)
  case Nil
  then show ?case by simp
next
  case (Cons y ys)
  show ?case
  proof (cases i)
    case 0
    with Cons.prems show ?thesis by simp
  next
    case (Suc k)
    from Cons.prems have "y \<notin> set (take k ys)" "y \<notin> set (drop (Suc k) ys)"
      by (auto dest: in_set_takeD in_set_dropD)
    with Cons.IH [of k] Cons.prems Suc show ?thesis by simp
  qed
qed

lemma distinct_remove_at:
  "distinct (map f xs) \<Longrightarrow> distinct (map f (take i xs @ drop (Suc i) xs))"
  using distinct_remove_nth [of "map f xs" i] by (simp add: take_map drop_map)

lemma ids_issued_update:
  assumes "ids_issued s"
  shows "ids_issued (snd (updateProduct s ident nm pr st))"
proof (cases "ident \<in> id_of ` set (products s)")
  case False
  then show ?thesis using assms by (simp add: updateProduct_absent)
next
  case True
  define i where "i = length (takeWhile (\<lambda>p. id_of p \<noteq> ident) (products s))"
  define np where "np = \<lparr>id_of = ident, name = nm, price = pr, stock = st\<rparr>"
  from first_id_match [OF True] have lt: "i < length (products s)"
    and at: "id_of (products s ! i) = ident"
    unfolding i_def by simp_all
  have ids: "map id_of ((products s)[i := np]) = map id_of (products s)"
    using lt at by (simp add: map_update np_def list_update_same_conv)
  have known: "\<exists>k. 0 < k \<and> k < nextId s \<and> ident = String_js k"
    using assms lt at unfolding ids_issued_def by (metis nth_mem)
  have "\<forall>p\<in>set ((products s)[i := np]). \<exists>k. 0 < k \<and> k < nextId s \<and> id_of p = String_js k"
  proof
    fix p assume "p \<in> set ((products s)[i := np])"
    then have "p = np \<or> p \<in> set (products s)"
      using set_update_subset_insert by fastforce
    then show "\<exists>k. 0 < k \<and> k < nextId s \<and> id_of p = String_js k"
      using known assms unfolding ids_issued_def np_def by auto
  qed
  then show ?thesis
    using assms ids
    unfolding ids_issued_def updateProduct_present [OF True] i_def [symmetric] np_def [symmetric]
    by simp
qed

lemma ids_issued_remove:
  assumes "ids_issued s"
  shows "ids_issued (snd (removeProduct s ident))"
proof (cases "ident \<in> id_of ` set (products s)")
  case False
  then show ?thesis using assms by (simp add: removeProduct_absent)
next
  case True
  define i where "i = length (takeWhile (\<lambda>p. id_of p \<noteq> ident) (products s))"
  have "\<forall>p\<in>set (take i (products s) @ drop (Suc i) (products s)).
          \<exists>k. 0 < k \<and> k < nextId s \<and> id_of p = String_js k"
    using assms set_remove_at [of i "products s"] unfolding ids_issued_def by blast
  then show ?thesis
    using assms distinct_remove_at [of id_of "products s" i]
    unfolding ids_issued_def removeProduct_present [OF True] i_def [symmetric]
    by simp
qed

lemma ids_issued_apply: "ids_issued s \<Longrightarrow> ids_issued (apply_mutation s m)"
  by (cases m) (simp_all add: ids_issued_add ids_issued_update ids_issued_remove)

lemma ids_issued_run: "ids_issued s \<Longrightarrow> ids_issued (run s ms)"
  by (induction ms arbitrary: s) (simp_all add: ids_issued_apply)

lemma ids_issued_reachable: "ids_issued (run init_state ms)"
  by (rule ids_issued_run) (rule ids_issued_init)

lemma nextId_update: "nextId (snd (updateProduct s ident nm pr st)) = nextId s"
  by (cases "ident \<in> id_of ` set (products s)")
    (simp_all add: updateProduct_absent updateProduct_present)

lemma nextId_remove: "nextId (snd (removeProduct s ident)) = nextId s"
  by (cases "ident \<in> id_of ` set (products s)")
    (simp_all add: removeProduct_absent removeProduct_present)

lemma assigned_ids_run:
  "assigned_ids s ms = map String_js [nextId s ..< nextId (run s ms)] \<and> nextId s \<le> nextId (run s ms)"
proof (induction s ms rule: assigned_ids.induct)
  case (1 s)
  then show ?case by simp
next
  case (2 s nm pr st ms)
  have n: "nextId (snd (addProduct s nm pr st)) = Suc (nextId s)"
    and i: "id_of (fst (addProduct s nm pr st)) = String_js (nextId s)"
    by (simp_all add: addProduct_def Let_def)
  from 2 n have le: "Suc (nextId s) \<le> nextId (run (snd (addProduct s nm pr st)) ms)"
    by simp
  then have "[nextId s ..< nextId (run (snd (addProduct s nm pr st)) ms)] =
      nextId s # [Suc (nextId s) ..< nextId (run (snd (addProduct s nm pr st)) ms)]"
    by (simp add: upt_conv_Cons)
  with 2 n i le show ?case by simp
next
  case (3 s ident nm pr st ms)
  then show ?case by (simp add: nextId_update)
next
  case (4 s ident ms)
  then show ?case by (simp add: nextId_remove)
qed

lemma distinct_map_String_js: "distinct (map String_js [a ..< b])"
  by (simp add: distinct_map inj_on_def) (use String_js_inj in blast)

lemmas eval_simps = init_state_def addProduct_def updateProduct_def removeProduct_def
  Query_products_def slice_def relative_index_def splice_js_def at0_def Let_def String_js_digit
  digit_def

lemma products_example_run:
  "run init_state example_run =
     \<lparr>products =
        [\<lparr>id_of = ''1'', name = ''Widget'', price = 999 / 100, stock = 5\<rparr>,
         \<lparr>id_of = ''2'', name = ''Gadget'', price = 20, stock = 0\<rparr>,
         \<lparr>id_of = ''3'', name = ''Gizmo'', price = 5 / 2, stock = 12\<rparr>],
      nextId = 4\<rparr>"
  by (simp add: example_run_def eval_simps)

lemma id_not_in_remove_at:
  assumes "distinct (map f xs)" and "i < length xs"
  shows "f (xs ! i) \<notin> f ` set (take i xs @ drop (Suc i) xs)"
proof -
  have "xs = take i xs @ xs ! i # drop (Suc i) xs"
    using assms(2) by (rule id_take_nth_drop)
  then have "distinct (map f (take i xs @ xs ! i # drop (Suc i) xs))"
    using assms(1) by simp
  then show ?thesis by auto
qed

lemma removeProduct_id_gone:
  assumes "distinct (map id_of (products s))"
  shows "ident \<notin> id_of ` set (products (snd (removeProduct s ident)))"
proof (cases "ident \<in> id_of ` set (products s)")
  case False
  then show ?thesis by (simp add: removeProduct_absent)
next
  case True
  define i where "i = length (takeWhile (\<lambda>p. id_of p \<noteq> ident) (products s))"
  from first_id_match [OF True] have lt: "i < length (products s)"
    and at: "id_of (products s ! i) = ident"
    unfolding i_def by simp_all
  from id_not_in_remove_at [OF assms lt] at show ?thesis
    unfolding removeProduct_present [OF True] i_def [symmetric] by simp
qed

lemma distinct_ids_reachable: "distinct (map id_of (products (run init_state ms)))"
  using ids_issued_reachable [of ms] by (simp add: ids_issued_def)

lemma set_Query_products: "set (fst (Query_products s page perPage)) \<subseteq> set (products s)"
  by (simp add: Query_products_def set_slice)

lemma relative_index_nonneg: "0 \<le> a \<Longrightarrow> relative_index (int n) a = min (nat a) n"
  by (auto simp: relative_index_def min_def)

lemma slice_page:
  assumes "0 \<le> a" and "0 \<le> c"
  shows "slice xs a (a + c) = take (nat c) (drop (nat a) xs)"
proof -
  have b: "nat (a + c) = nat a + nat c" using assms by (simp add: nat_add_distrib)
  have "take (min (nat a + nat c) (length xs) - min (nat a) (length xs))
          (drop (min (nat a) (length xs)) xs) = take (nat c) (drop (nat a) xs)"
    by (cases "nat a \<le> length xs") (auto simp: min_def)
  then show ?thesis
    using assms by (simp add: slice_take_drop relative_index_nonneg b)
qed

lemma page_bounds: "(page - 1) * perPage = page * perPage - (perPage :: int)"
  by (simp add: left_diff_distrib)

lemma slice_empty_iff:
  "slice xs a b = [] \<longleftrightarrow>
     relative_index (int (length xs)) b \<le> relative_index (int (length xs)) a"
  by (auto simp: slice_def Let_def)

lemma Query_products_page:
  assumes "1 \<le> page" and "0 \<le> perPage"
  shows "fst (Query_products s page perPage) =
           take (nat perPage) (drop (nat ((page - 1) * perPage)) (products s))"
proof -
  have b: "page * perPage = (page - 1) * perPage + perPage"
    by (simp add: left_diff_distrib)
  have "0 \<le> (page - 1) * perPage" using assms by simp
  then show ?thesis
    unfolding Query_products_def fst_conv b using assms(2) by (rule slice_page)
qed

lemma new_record_listed:
  assumes "0 < perPage"
  shows "np \<in> set (fst (Query_products \<lparr>products = xs @ [np], nextId = k\<rparr>
           (int (length xs) div perPage + 1) perPage))"
proof -
  define n where "n = length xs"
  define q where "q = nat (int n div perPage * perPage)"
  have d: "int n = int n div perPage * perPage + int n mod perPage"
    by simp
  have m: "0 \<le> int n mod perPage" "int n mod perPage < perPage"
    using assms by simp_all
  have q0: "0 \<le> int n div perPage * perPage"
    using assms by (simp add: pos_imp_zdiv_nonneg_iff)
  have q: "int q = int n div perPage * perPage" unfolding q_def using q0 by simp
  have le: "q \<le> n" using d m q by linarith
  have lt: "n - q < nat perPage" using d m q le by linarith
  have page: "fst (Query_products \<lparr>products = xs @ [np], nextId = k\<rparr>
      (int n div perPage + 1) perPage) = take (nat perPage) (drop q (xs @ [np]))"
    using Query_products_page [of "int n div perPage + 1" perPage] assms
    by (simp add: pos_imp_zdiv_nonneg_iff q_def)
  have len: "n - q < length (take (nat perPage) (drop q (xs @ [np])))"
    using lt le by (simp add: n_def)
  have "take (nat perPage) (drop q (xs @ [np])) ! (n - q) = np"
    using lt le by (simp add: n_def nth_append)
  with len have "np \<in> set (take (nat perPage) (drop q (xs @ [np])))"
    by (metis nth_mem)
  then show ?thesis unfolding page n_def [symmetric] .
qed

lemma nonneg_apply:
  assumes "\<forall>p\<in>set (products s). 0 \<le> price p \<and> 0 \<le> stock p" and "nonneg_args m"
  shows "\<forall>p\<in>set (products (apply_mutation s m)). 0 \<le> price p \<and> 0 \<le> stock p"
proof (cases m)
  case (AddProduct nm pr st)
  with assms show ?thesis by (simp add: addProduct_def Let_def)
next
  case (UpdateProduct ident nm pr st)
  show ?thesis
  proof (cases "ident \<in> id_of ` set (products s)")
    case False
    with assms UpdateProduct show ?thesis by (simp add: updateProduct_absent)
  next
    case True
    have "set ((products s)[i := np]) \<subseteq> insert np (set (products s))" for i np
      by (rule set_update_subset_insert)
    with assms UpdateProduct show ?thesis
      unfolding UpdateProduct apply_mutation.simps updateProduct_present [OF True]
      by (fastforce simp: subset_iff)
  qed
next
  case (RemoveProduct ident)
  show ?thesis
  proof (cases "ident \<in> id_of ` set (products s)")
    case False
    with assms RemoveProduct show ?thesis by (simp add: removeProduct_absent)
  next
    case True
    with assms(1) set_remove_at [of _ "products s"] show ?thesis
      unfolding RemoveProduct apply_mutation.simps removeProduct_present [OF True]
      by (simp add: subset_iff) blast
  qed
qed

lemma example_run_id_2:
  assumes "i < length (products (run init_state example_run))"
    and "id_of (products (run init_state example_run) ! i) = ''2''"
  shows "i = 1"
proof -
  from assms(1) have "i = 0 \<or> i = 1 \<or> i = 2"
    unfolding products_example_run by simp arith
  with assms(2) show ?thesis
    unfolding products_example_run by auto
qed

section \<open>The claims\<close>

text \<open>
  Claim C3. In every state reachable from the initial state (empty array, counter at 1)
  by a sequence of \<open>addProduct\<close>, \<open>updateProduct\<close> and \<open>removeProduct\<close> calls, the ids of
  the records in the array are pairwise distinct. The ids that the \<open>addProduct\<close> calls of
  the run assigned are pairwise distinct too, whether or not their records are still in
  the array: they are the numerals of 1, 2, ... up to the counter, in this order.
\<close>

theorem ids_unique_and_never_reused:
  "distinct (map id_of (products (run init_state ms))) \<and>
   distinct (assigned_ids init_state ms) \<and>
   assigned_ids init_state ms = map String_js [1 ..< nextId (run init_state ms)]"
proof -
  have "distinct (map id_of (products (run init_state ms)))"
    using ids_issued_reachable [of ms] by (simp add: ids_issued_def)
  moreover have a: "assigned_ids init_state ms = map String_js [1 ..< nextId (run init_state ms)]"
    using assigned_ids_run [of init_state ms] by (simp add: init_state_def)
  moreover have "distinct (assigned_ids init_state ms)"
    unfolding a by (rule distinct_map_String_js)
  ultimately show ?thesis by simp
qed

text \<open>
  Claim C5. When no record of the array has the given id, \<open>updateProduct\<close> returns
  \<^verbatim>\<open>null\<close> and leaves the whole state, the array and the id counter, as it was.
\<close>

theorem updateProduct_unknown_id:
  "ident \<notin> id_of ` set (products s) \<Longrightarrow> updateProduct s ident nm pr st = (None, s)"
  by (rule updateProduct_absent)

theorem updateProduct_unknown_id_witness:
  "''7'' \<notin> id_of ` set (products (run init_state example_run)) \<and>
   updateProduct (run init_state example_run) ''7'' ''Sprocket'' 3 4 =
     (None, run init_state example_run)"
proof -
  have h: "''7'' \<notin> id_of ` set (products (run init_state example_run))"
    by (simp add: products_example_run)
  from h updateProduct_unknown_id [OF h] show ?thesis by (rule conjI)
qed

text \<open>
  Claim C4. When the array holds a record with the given id, \<open>updateProduct\<close> puts the
  record made of the given id, name, price and stock at the position \<open>i\<close> of the first
  record with that id, and returns it. Nothing else of the state changes: the array keeps
  its length, and the new record is the one at position \<open>i\<close> afterwards.
\<close>

theorem updateProduct_replaces_in_place:
  fixes nm :: string and pr :: real and st :: int
  assumes "ident \<in> id_of ` set (products s)"
  defines "np \<equiv> \<lparr>id_of = ident, name = nm, price = pr, stock = st\<rparr>"
  shows "\<exists>i<length (products s).
           id_of (products s ! i) = ident \<and> (\<forall>j<i. id_of (products s ! j) \<noteq> ident) \<and>
           updateProduct s ident nm pr st = (Some np, s\<lparr>products := (products s)[i := np]\<rparr>) \<and>
           length (products (snd (updateProduct s ident nm pr st))) = length (products s) \<and>
           products (snd (updateProduct s ident nm pr st)) ! i = np"
proof -
  define i where "i = length (takeWhile (\<lambda>p. id_of p \<noteq> ident) (products s))"
  from first_id_match [OF assms(1)]
  have m: "i < length (products s) \<and> id_of (products s ! i) = ident \<and>
      (\<forall>j<i. id_of (products s ! j) \<noteq> ident)"
    unfolding i_def .
  have u: "updateProduct s ident nm pr st = (Some np, s\<lparr>products := (products s)[i := np]\<rparr>)"
    unfolding i_def np_def by (rule updateProduct_present [OF assms(1)])
  from m u show ?thesis by auto
qed

theorem updateProduct_replaces_in_place_witness:
  "''2'' \<in> id_of ` set (products (run init_state example_run)) \<and>
   updateProduct (run init_state example_run) ''2'' ''Gadget'' (15 / 2) 3 =
     (Some \<lparr>id_of = ''2'', name = ''Gadget'', price = 15 / 2, stock = 3\<rparr>,
      \<lparr>products =
         [\<lparr>id_of = ''1'', name = ''Widget'', price = 999 / 100, stock = 5\<rparr>,
          \<lparr>id_of = ''2'', name = ''Gadget'', price = 15 / 2, stock = 3\<rparr>,
          \<lparr>id_of = ''3'', name = ''Gizmo'', price = 5 / 2, stock = 12\<rparr>],
       nextId = 4\<rparr>)"
proof -
  have h: "''2'' \<in> id_of ` set (products (run init_state example_run))"
    by (simp add: products_example_run)
  from updateProduct_replaces_in_place [OF h, of "''Gadget''" "15 / 2" 3]
  obtain i where lt: "i < length (products (run init_state example_run))"
    and at: "id_of (products (run init_state example_run) ! i) = ''2''"
    and u: "updateProduct (run init_state example_run) ''2'' ''Gadget'' (15 / 2) 3 =
      (Some \<lparr>id_of = ''2'', name = ''Gadget'', price = 15 / 2, stock = 3\<rparr>,
       (run init_state example_run)\<lparr>products := (products (run init_state example_run))
         [i := \<lparr>id_of = ''2'', name = ''Gadget'', price = 15 / 2, stock = 3\<rparr>]\<rparr>)"
    by blast
  from lt at have "i = 1" by (rule example_run_id_2)
  with u h show ?thesis by (simp add: products_example_run)
qed

text \<open>
  Claim C6. When the array holds a record with the given id, \<open>removeProduct\<close> takes out the
  first record with that id, at position \<open>i\<close>, and returns it; the array is one record
  shorter. In a reachable state no page of any later \<open>products\<close> query shows a record with
  that id.
\<close>

theorem removeProduct_removes_first_match:
  assumes "ident \<in> id_of ` set (products s)"
  shows "(\<exists>i<length (products s).
            id_of (products s ! i) = ident \<and> (\<forall>j<i. id_of (products s ! j) \<noteq> ident) \<and>
            removeProduct s ident =
              (Some (products s ! i),
               s\<lparr>products := take i (products s) @ drop (Suc i) (products s)\<rparr>)) \<and>
         length (products (snd (removeProduct s ident))) + 1 = length (products s) \<and>
         (s = run init_state ms \<longrightarrow>
            (\<forall>page perPage.
               ident \<notin> id_of ` set (fst (Query_products (snd (removeProduct s ident)) page perPage))))"
proof -
  define i where "i = length (takeWhile (\<lambda>p. id_of p \<noteq> ident) (products s))"
  from first_id_match [OF assms]
  have m: "i < length (products s) \<and> id_of (products s ! i) = ident \<and>
      (\<forall>j<i. id_of (products s ! j) \<noteq> ident)"
    unfolding i_def .
  have r: "removeProduct s ident =
      (Some (products s ! i), s\<lparr>products := take i (products s) @ drop (Suc i) (products s)\<rparr>)"
    unfolding i_def by (rule removeProduct_present [OF assms])
  have len: "length (products (snd (removeProduct s ident))) + 1 = length (products s)"
    using m unfolding r by auto
  have gone: "ident \<notin> id_of ` set (fst (Query_products (snd (removeProduct s ident)) page perPage))"
    if reach: "s = run init_state ms" for page perPage
  proof -
    have d: "distinct (map id_of (products s))"
      unfolding reach by (rule distinct_ids_reachable)
    show ?thesis
      using removeProduct_id_gone [OF d, of ident]
        set_Query_products [of "snd (removeProduct s ident)" page perPage]
      by blast
  qed
  from m r have "\<exists>i<length (products s).
      id_of (products s ! i) = ident \<and> (\<forall>j<i. id_of (products s ! j) \<noteq> ident) \<and>
      removeProduct s ident =
        (Some (products s ! i),
         s\<lparr>products := take i (products s) @ drop (Suc i) (products s)\<rparr>)"
    by blast
  with len gone show ?thesis by blast
qed

theorem removeProduct_removes_first_match_witness:
  "''2'' \<in> id_of ` set (products (run init_state example_run)) \<and>
   removeProduct (run init_state example_run) ''2'' =
     (Some \<lparr>id_of = ''2'', name = ''Gadget'', price = 20, stock = 0\<rparr>,
      \<lparr>products =
         [\<lparr>id_of = ''1'', name = ''Widget'', price = 999 / 100, stock = 5\<rparr>,
          \<lparr>id_of = ''3'', name = ''Gizmo'', price = 5 / 2, stock = 12\<rparr>],
       nextId = 4\<rparr>) \<and>
   length (products (snd (removeProduct (run init_state example_run) ''2''))) + 1 =
     length (products (run init_state example_run)) \<and>
   ''2'' \<notin> id_of ` set (fst (Query_products
      (snd (removeProduct (run init_state example_run) ''2'')) 1 10))"
proof -
  have h: "''2'' \<in> id_of ` set (products (run init_state example_run))"
    by (simp add: products_example_run)
  note t = removeProduct_removes_first_match [OF h, of example_run]
  from t obtain i where lt: "i < length (products (run init_state example_run))"
    and at: "id_of (products (run init_state example_run) ! i) = ''2''"
    and r: "removeProduct (run init_state example_run) ''2'' =
      (Some (products (run init_state example_run) ! i),
       (run init_state example_run)\<lparr>products :=
          take i (products (run init_state example_run)) @
          drop (Suc i) (products (run init_state example_run))\<rparr>)"
    by blast
  from lt at have "i = 1" by (rule example_run_id_2)
  with r have removed: "removeProduct (run init_state example_run) ''2'' =
     (Some \<lparr>id_of = ''2'', name = ''Gadget'', price = 20, stock = 0\<rparr>,
      \<lparr>products =
         [\<lparr>id_of = ''1'', name = ''Widget'', price = 999 / 100, stock = 5\<rparr>,
          \<lparr>id_of = ''3'', name = ''Gizmo'', price = 5 / 2, stock = 12\<rparr>],
       nextId = 4\<rparr>)"
    by (simp add: products_example_run)
  from t have len: "length (products (snd (removeProduct (run init_state example_run) ''2''))) + 1 =
     length (products (run init_state example_run))"
    by blast
  from t have gone: "''2'' \<notin> id_of ` set (fst (Query_products
      (snd (removeProduct (run init_state example_run) ''2'')) 1 10))"
    by blast
  from h removed len gone show ?thesis by blast
qed

text \<open>
  Claim C7. When no record of the array has the given id, \<open>removeProduct\<close> returns
  \<^verbatim>\<open>null\<close> and leaves the state as it was. In a reachable state, a second
  \<open>removeProduct\<close> of the same id, right after the first, returns \<^verbatim>\<open>null\<close> and changes
  nothing.
\<close>

theorem removeProduct_unknown_id:
  "(ident \<notin> id_of ` set (products s) \<longrightarrow> removeProduct s ident = (None, s)) \<and>
   (s = run init_state ms \<longrightarrow>
      removeProduct (snd (removeProduct s ident)) ident = (None, snd (removeProduct s ident)))"
proof (intro conjI impI)
  assume "ident \<notin> id_of ` set (products s)"
  then show "removeProduct s ident = (None, s)" by (rule removeProduct_absent)
next
  assume reach: "s = run init_state ms"
  have d: "distinct (map id_of (products s))"
    unfolding reach by (rule distinct_ids_reachable)
  show "removeProduct (snd (removeProduct s ident)) ident = (None, snd (removeProduct s ident))"
    by (rule removeProduct_absent) (rule removeProduct_id_gone [OF d])
qed

theorem removeProduct_unknown_id_witness:
  "''1'' \<notin> id_of ` set (products
      (run init_state [AddProduct ''Widget'' (999 / 100) 5, RemoveProduct ''1''])) \<and>
   removeProduct (run init_state [AddProduct ''Widget'' (999 / 100) 5, RemoveProduct ''1'']) ''1'' =
     (None, \<lparr>products = [], nextId = 2\<rparr>) \<and>
   removeProduct (snd (removeProduct (run init_state [AddProduct ''Widget'' (999 / 100) 5]) ''1'')) ''1'' =
     (None, snd (removeProduct (run init_state [AddProduct ''Widget'' (999 / 100) 5]) ''1''))"
proof -
  have a: "run init_state [AddProduct ''Widget'' (999 / 100) 5, RemoveProduct ''1''] =
      \<lparr>products = [], nextId = 2\<rparr>"
    by (simp add: eval_simps)
  have h: "''1'' \<notin> id_of ` set (products
      (run init_state [AddProduct ''Widget'' (999 / 100) 5, RemoveProduct ''1'']))"
    unfolding a by simp
  from removeProduct_unknown_id
    [of "''1''" "run init_state [AddProduct ''Widget'' (999 / 100) 5, RemoveProduct ''1'']"] h
  have one: "removeProduct (run init_state [AddProduct ''Widget'' (999 / 100) 5, RemoveProduct ''1'']) ''1'' =
     (None, \<lparr>products = [], nextId = 2\<rparr>)"
    unfolding a by blast
  from removeProduct_unknown_id
    [of "''1''" "run init_state [AddProduct ''Widget'' (999 / 100) 5]"
        "[AddProduct ''Widget'' (999 / 100) 5]"]
  have two: "removeProduct (snd (removeProduct (run init_state [AddProduct ''Widget'' (999 / 100) 5]) ''1'')) ''1'' =
     (None, snd (removeProduct (run init_state [AddProduct ''Widget'' (999 / 100) 5]) ''1''))"
    by blast
  from h one two show ?thesis by blast
qed

text \<open>
  Claim C10. Each mutation touches one record only. \<open>addProduct\<close> makes the array one
  record longer and leaves every record it held at its position. \<open>updateProduct\<close> of an id
  in the array keeps the length and leaves the record at every position but one, which
  held that id. \<open>removeProduct\<close> of an id in the array leaves the records before and after
  one position, which held that id, in their order.
\<close>

theorem mutations_touch_one_record:
  "(length (products (snd (addProduct s nm pr st))) = Suc (length (products s)) \<and>
    (\<forall>j<length (products s). products (snd (addProduct s nm pr st)) ! j = products s ! j)) \<and>
   (ident \<in> id_of ` set (products s) \<longrightarrow>
      (\<exists>i<length (products s).
         id_of (products s ! i) = ident \<and>
         length (products (snd (updateProduct s ident nm pr st))) = length (products s) \<and>
         (\<forall>j<length (products s). j \<noteq> i \<longrightarrow>
            products (snd (updateProduct s ident nm pr st)) ! j = products s ! j))) \<and>
   (ident \<in> id_of ` set (products s) \<longrightarrow>
      (\<exists>i<length (products s).
         id_of (products s ! i) = ident \<and>
         products (snd (removeProduct s ident)) =
           take i (products s) @ drop (Suc i) (products s)))"
proof (intro conjI impI)
  show "length (products (snd (addProduct s nm pr st))) = Suc (length (products s))"
    by (simp add: addProduct_def Let_def)
  show "\<forall>j<length (products s). products (snd (addProduct s nm pr st)) ! j = products s ! j"
    by (simp add: addProduct_def Let_def nth_append)
next
  assume present: "ident \<in> id_of ` set (products s)"
  define i where "i = length (takeWhile (\<lambda>p. id_of p \<noteq> ident) (products s))"
  from first_id_match [OF present]
  have m: "i < length (products s)" "id_of (products s ! i) = ident"
    unfolding i_def by simp_all
  have "length (products (snd (updateProduct s ident nm pr st))) = length (products s) \<and>
      (\<forall>j<length (products s). j \<noteq> i \<longrightarrow>
         products (snd (updateProduct s ident nm pr st)) ! j = products s ! j)"
    unfolding updateProduct_present [OF present] i_def [symmetric] by simp
  with m show "\<exists>i<length (products s).
         id_of (products s ! i) = ident \<and>
         length (products (snd (updateProduct s ident nm pr st))) = length (products s) \<and>
         (\<forall>j<length (products s). j \<noteq> i \<longrightarrow>
            products (snd (updateProduct s ident nm pr st)) ! j = products s ! j)"
    by blast
next
  assume present: "ident \<in> id_of ` set (products s)"
  define i where "i = length (takeWhile (\<lambda>p. id_of p \<noteq> ident) (products s))"
  from first_id_match [OF present]
  have m: "i < length (products s)" "id_of (products s ! i) = ident"
    unfolding i_def by simp_all
  have "products (snd (removeProduct s ident)) = take i (products s) @ drop (Suc i) (products s)"
    unfolding removeProduct_present [OF present] i_def [symmetric] by simp
  with m show "\<exists>i<length (products s).
         id_of (products s ! i) = ident \<and>
         products (snd (removeProduct s ident)) =
           take i (products s) @ drop (Suc i) (products s)"
    by blast
qed

theorem mutations_touch_one_record_witness:
  "''2'' \<in> id_of ` set (products (run init_state example_run)) \<and>
   length (products (snd (addProduct (run init_state example_run) ''Sprocket'' 4 7))) = 4 \<and>
   products (snd (addProduct (run init_state example_run) ''Sprocket'' 4 7)) ! 2 =
     \<lparr>id_of = ''3'', name = ''Gizmo'', price = 5 / 2, stock = 12\<rparr> \<and>
   length (products (snd (updateProduct (run init_state example_run) ''2'' ''Sprocket'' 4 7))) = 3 \<and>
   products (snd (updateProduct (run init_state example_run) ''2'' ''Sprocket'' 4 7)) ! 0 =
     \<lparr>id_of = ''1'', name = ''Widget'', price = 999 / 100, stock = 5\<rparr> \<and>
   products (snd (updateProduct (run init_state example_run) ''2'' ''Sprocket'' 4 7)) ! 2 =
     \<lparr>id_of = ''3'', name = ''Gizmo'', price = 5 / 2, stock = 12\<rparr> \<and>
   products (snd (removeProduct (run init_state example_run) ''2'')) =
     [\<lparr>id_of = ''1'', name = ''Widget'', price = 999 / 100, stock = 5\<rparr>,
      \<lparr>id_of = ''3'', name = ''Gizmo'', price = 5 / 2, stock = 12\<rparr>]"
proof -
  have h: "''2'' \<in> id_of ` set (products (run init_state example_run))"
    by (simp add: products_example_run)
  have len: "length (products (run init_state example_run)) = 3"
    by (simp add: products_example_run)
  note t = mutations_touch_one_record
    [of "run init_state example_run" "''Sprocket''" 4 7 "''2''"]
  from t have a1: "length (products (snd (addProduct (run init_state example_run) ''Sprocket'' 4 7))) = 4"
    unfolding len by simp
  from t have "products (snd (addProduct (run init_state example_run) ''Sprocket'' 4 7)) ! 2 =
      products (run init_state example_run) ! 2"
    unfolding len by simp
  then have a2: "products (snd (addProduct (run init_state example_run) ''Sprocket'' 4 7)) ! 2 =
      \<lparr>id_of = ''3'', name = ''Gizmo'', price = 5 / 2, stock = 12\<rparr>"
    by (simp add: products_example_run)
  from t h obtain i where lt: "i < length (products (run init_state example_run))"
    and at: "id_of (products (run init_state example_run) ! i) = ''2''"
    and ul: "length (products (snd (updateProduct (run init_state example_run) ''2'' ''Sprocket'' 4 7))) =
      length (products (run init_state example_run))"
    and uf: "\<forall>j<length (products (run init_state example_run)). j \<noteq> i \<longrightarrow>
      products (snd (updateProduct (run init_state example_run) ''2'' ''Sprocket'' 4 7)) ! j =
      products (run init_state example_run) ! j"
    by blast
  from lt at have i: "i = 1" by (rule example_run_id_2)
  from ul have u1: "length (products (snd (updateProduct (run init_state example_run) ''2'' ''Sprocket'' 4 7))) = 3"
    unfolding len .
  from uf have u2: "products (snd (updateProduct (run init_state example_run) ''2'' ''Sprocket'' 4 7)) ! 0 =
      \<lparr>id_of = ''1'', name = ''Widget'', price = 999 / 100, stock = 5\<rparr>"
    and u3: "products (snd (updateProduct (run init_state example_run) ''2'' ''Sprocket'' 4 7)) ! 2 =
      \<lparr>id_of = ''3'', name = ''Gizmo'', price = 5 / 2, stock = 12\<rparr>"
    unfolding len i by (simp_all add: products_example_run)
  from t h obtain k where lt: "k < length (products (run init_state example_run))"
    and at: "id_of (products (run init_state example_run) ! k) = ''2''"
    and rf: "products (snd (removeProduct (run init_state example_run) ''2'')) =
      take k (products (run init_state example_run)) @
      drop (Suc k) (products (run init_state example_run))"
    by blast
  from lt at have "k = 1" by (rule example_run_id_2)
  with rf have r: "products (snd (removeProduct (run init_state example_run) ''2'')) =
     [\<lparr>id_of = ''1'', name = ''Widget'', price = 999 / 100, stock = 5\<rparr>,
      \<lparr>id_of = ''3'', name = ''Gizmo'', price = 5 / 2, stock = 12\<rparr>]"
    by (simp add: products_example_run)
  from h a1 a2 u1 u2 u3 r show ?thesis by blast
qed

text \<open>
  Claim C8, as the code has it. The query checks no bounds and returns a list for every
  page and page size. With a positive page size the list is empty exactly for a page
  past the data (the array is no longer than \<open>(page - 1) * perPage\<close>), for page 0, and for a
  negative page when the array is no longer than \<open>- page * perPage\<close>. On a longer array a
  negative page is not empty: \<open>slice\<close> counts both negative bounds from the end of the
  array.
\<close>

theorem Query_products_empty_iff:
  assumes "0 < perPage"
  shows "fst (Query_products s page perPage) = [] \<longleftrightarrow>
           int (length (products s)) \<le> (page - 1) * perPage \<or> page = 0 \<or>
           (page < 0 \<and> int (length (products s)) \<le> - page * perPage)"
proof -
  define b where "b = page * perPage"
  define n where "n = int (length (products s))"
  have a: "(page - 1) * perPage = b - perPage"
    unfolding b_def by (rule page_bounds)
  have n: "0 \<le> n" unfolding n_def by simp
  consider (pos) "1 \<le> page" | (zero) "page = 0" | (neg) "page \<le> - 1" by linarith
  then show ?thesis
  proof cases
    case pos
    then have "1 * perPage \<le> page * perPage"
      using assms by (intro mult_right_mono) simp_all
    then have "perPage \<le> b" unfolding b_def by simp
    with assms n pos show ?thesis
      unfolding Query_products_def fst_conv slice_empty_iff a b_def [symmetric] n_def [symmetric]
      by (auto simp: relative_index_def)
  next
    case zero
    with assms n show ?thesis
      unfolding Query_products_def fst_conv slice_empty_iff n_def [symmetric]
      by (auto simp: relative_index_def)
  next
    case neg
    then have "page * perPage \<le> (- 1) * perPage"
      using assms by (intro mult_right_mono) simp_all
    then have "b \<le> - perPage" unfolding b_def by simp
    moreover have "- page * perPage = - b" unfolding b_def by simp
    ultimately show ?thesis
      using assms n neg
      unfolding Query_products_def fst_conv slice_empty_iff a b_def [symmetric] n_def [symmetric]
      by (auto simp: relative_index_def)
  qed
qed

theorem Query_products_empty_iff_witness:
  "(0::int) < 2 \<and>
   (fst (Query_products (run init_state example_run) 3 2) = [] \<longleftrightarrow>
      int (length (products (run init_state example_run))) \<le> (3 - 1) * 2 \<or> (3::int) = 0 \<or>
      ((3::int) < 0 \<and> int (length (products (run init_state example_run))) \<le> - 3 * 2)) \<and>
   fst (Query_products (run init_state example_run) 3 2) = []"
proof -
  have h: "(0::int) < 2" by simp
  have "int (length (products (run init_state example_run))) \<le> (3 - 1) * 2"
    by (simp add: products_example_run)
  with h Query_products_empty_iff [OF h, of "run init_state example_run" 3]
  show ?thesis by blast
qed

text \<open>
  Claim C8 as stated fails for a negative page: on the three records of the example run,
  page \<open>-1\<close> with page size 2 asks for \<open>slice (-4) (-2)\<close>, which is the first record.
\<close>

theorem negative_page_not_empty:
  "fst (Query_products (run init_state example_run) (- 1) 2) =
     [\<lparr>id_of = ''1'', name = ''Widget'', price = 999 / 100, stock = 5\<rparr>] \<and>
   fst (Query_products (run init_state example_run) (- 1) 2) \<noteq> []"
  unfolding products_example_run
  by (simp add: Query_products_def slice_def relative_index_def Let_def)

text \<open>
  Claim C1, as the code has it. For every state and every pair of integers the
  \<open>products\<close> query leaves the state as it was and returns
  \<open>slice ((page - 1) * perPage) (page * perPage)\<close> of the array, with \<open>slice\<close> as JavaScript
  defines it (a negative bound counts from the end of the array). When \<open>page\<close> is at least
  1 and \<open>perPage\<close> is not negative, that is up to \<open>perPage\<close> records starting at the offset
  \<open>(page - 1) * perPage\<close>.
\<close>

theorem Query_products_slice_of_page:
  "snd (Query_products s page perPage) = s \<and>
   fst (Query_products s page perPage) =
     slice (products s) ((page - 1) * perPage) (page * perPage) \<and>
   (1 \<le> page \<and> 0 \<le> perPage \<longrightarrow>
      fst (Query_products s page perPage) =
        take (nat perPage) (drop (nat ((page - 1) * perPage)) (products s)))"
  by (simp add: Query_products_page) (simp add: Query_products_def)

theorem Query_products_slice_of_page_witness:
  "(1::int) \<le> 2 \<and> (0::int) \<le> 2 \<and>
   snd (Query_products (run init_state example_run) 2 2) = run init_state example_run \<and>
   fst (Query_products (run init_state example_run) 2 2) =
     [\<lparr>id_of = ''3'', name = ''Gizmo'', price = 5 / 2, stock = 12\<rparr>]"
proof -
  note t = Query_products_slice_of_page [of "run init_state example_run" 2 2]
  from t have unchanged:
    "snd (Query_products (run init_state example_run) 2 2) = run init_state example_run"
    by (rule conjunct1)
  from t have "(1::int) \<le> 2 \<and> (0::int) \<le> 2 \<longrightarrow>
      fst (Query_products (run init_state example_run) 2 2) =
        take (nat 2) (drop (nat ((2 - 1) * 2)) (products (run init_state example_run)))"
    by (elim conjE)
  then have "fst (Query_products (run init_state example_run) 2 2) =
      take (nat 2) (drop (nat ((2 - 1) * 2)) (products (run init_state example_run)))"
    by simp
  then have "fst (Query_products (run init_state example_run) 2 2) =
      [\<lparr>id_of = ''3'', name = ''Gizmo'', price = 5 / 2, stock = 12\<rparr>]"
    by (simp add: products_example_run)
  with unchanged show ?thesis by simp
qed

text \<open>
  Claim C1 as stated fails for a negative page size: on the three records of the example
  run, page 1 with page size \<open>-1\<close> asks for \<open>slice 0 (-1)\<close>, all records but the last. The
  result has two records, which is not "up to \<open>perPage\<close>" records.
\<close>

theorem negative_perPage_returns_records:
  "fst (Query_products (run init_state example_run) 1 (- 1)) =
     [\<lparr>id_of = ''1'', name = ''Widget'', price = 999 / 100, stock = 5\<rparr>,
      \<lparr>id_of = ''2'', name = ''Gadget'', price = 20, stock = 0\<rparr>] \<and>
   \<not> int (length (fst (Query_products (run init_state example_run) 1 (- 1)))) \<le> - 1"
  unfolding products_example_run
  by (simp add: Query_products_def slice_take_drop relative_index_def)

text \<open>
  Claim C2. \<open>addProduct\<close> returns the record made of the numeral of the id counter and
  the given name, price and stock, appends it to the array and increments the counter.
  In a reachable state no record of the array has that id. With a positive page size,
  the page that holds the position of the new record, \<open>length div perPage + 1\<close>, lists it.
\<close>

theorem addProduct_fresh_id_appended:
  fixes s :: state and nm :: string and pr :: real and st :: int
  defines "np \<equiv> \<lparr>id_of = String_js (nextId s), name = nm, price = pr, stock = st\<rparr>"
  shows "addProduct s nm pr st = (np, \<lparr>products = products s @ [np], nextId = nextId s + 1\<rparr>) \<and>
         (s = run init_state ms \<longrightarrow> id_of np \<notin> id_of ` set (products s)) \<and>
         (0 < perPage \<longrightarrow>
            np \<in> set (fst (Query_products (snd (addProduct s nm pr st))
                          (int (length (products s)) div perPage + 1) perPage)))"
proof (intro conjI impI)
  show a: "addProduct s nm pr st = (np, \<lparr>products = products s @ [np], nextId = nextId s + 1\<rparr>)"
    by (simp add: addProduct_def np_def Let_def)
  show "id_of np \<notin> id_of ` set (products s)" if "s = run init_state ms"
    using ids_issued_fresh [of s] ids_issued_reachable [of ms] that by (simp add: np_def)
  show "np \<in> set (fst (Query_products (snd (addProduct s nm pr st))
      (int (length (products s)) div perPage + 1) perPage))" if "0 < perPage"
    unfolding a snd_conv using that by (rule new_record_listed)
qed

theorem addProduct_fresh_id_appended_witness:
  "run init_state example_run = run init_state example_run \<and> (0::int) < 2 \<and>
   addProduct (run init_state example_run) ''Sprocket'' 4 7 =
     (\<lparr>id_of = ''4'', name = ''Sprocket'', price = 4, stock = 7\<rparr>,
      \<lparr>products = products (run init_state example_run) @
         [\<lparr>id_of = ''4'', name = ''Sprocket'', price = 4, stock = 7\<rparr>],
       nextId = 5\<rparr>) \<and>
   ''4'' \<notin> id_of ` set (products (run init_state example_run)) \<and>
   \<lparr>id_of = ''4'', name = ''Sprocket'', price = 4, stock = 7\<rparr> \<in>
     set (fst (Query_products (snd (addProduct (run init_state example_run) ''Sprocket'' 4 7)) 2 2))"
proof -
  have n: "String_js (nextId (run init_state example_run)) = ''4''"
    "nextId (run init_state example_run) + 1 = 5"
    "int (length (products (run init_state example_run))) div 2 + 1 = 2"
    by (simp_all add: products_example_run String_js_digit digit_def)
  from addProduct_fresh_id_appended
    [of "run init_state example_run" "''Sprocket''" 4 7 example_run 2]
  show ?thesis unfolding n by auto
qed

text \<open>
  Claim C9, as the code has it. The resolvers store the price and the stock they are
  given and check neither. When every \<open>addProduct\<close> and \<open>updateProduct\<close> call of a run has
  a non-negative price and a non-negative stock, every record of the reached array has.
\<close>

theorem nonneg_arguments_keep_records_nonneg:
  assumes "\<forall>m\<in>set ms. nonneg_args m"
  shows "\<forall>p\<in>set (products (run init_state ms)). 0 \<le> price p \<and> 0 \<le> stock p"
proof -
  have "\<forall>p\<in>set (products (run s ms)). 0 \<le> price p \<and> 0 \<le> stock p"
    if "\<forall>p\<in>set (products s). 0 \<le> price p \<and> 0 \<le> stock p" for s
    using that assms
  proof (induction ms arbitrary: s)
    case Nil
    then show ?case by simp
  next
    case (Cons m ms)
    from Cons.prems have "\<forall>p\<in>set (products (apply_mutation s m)). 0 \<le> price p \<and> 0 \<le> stock p"
      by (intro nonneg_apply) simp_all
    with Cons.IH [of "apply_mutation s m"] Cons.prems show ?case by simp
  qed
  from this [of init_state] show ?thesis by (simp add: init_state_def)
qed

theorem nonneg_arguments_keep_records_nonneg_witness:
  "list_all nonneg_args example_run \<and>
   list_all (\<lambda>p. 0 \<le> price p \<and> 0 \<le> stock p) (products (run init_state example_run))"
proof -
  have h: "\<forall>m\<in>set example_run. nonneg_args m"
    by (simp add: example_run_def)
  from h nonneg_arguments_keep_records_nonneg [OF h] show ?thesis
    unfolding list_all_iff by (rule conjI)
qed

text \<open>
  Claim C9 as stated fails for arbitrary arguments: \<open>addProduct\<close> with price \<open>-1\<close> and stock
  \<open>-5\<close> on the empty store puts a record with these values in the array.
\<close>

theorem negative_price_and_stock_stored:
  "products (run init_state [AddProduct ''Widget'' (- 1) (- 5)]) =
     [\<lparr>id_of = ''1'', name = ''Widget'', price = - 1, stock = - 5\<rparr>] \<and>
   \<not> 0 \<le> price \<lparr>id_of = ''1'', name = ''Widget'', price = - 1, stock = - 5\<rparr> \<and>
   \<not> 0 \<le> stock \<lparr>id_of = ''1'', name = ''Widget'', price = - 1, stock = - 5\<rparr>"
  by (simp add: eval_simps)

end
